theory Spec2Isabelle
  imports Main
begin

section \<open>The keycloak-js interface, as the application uses it\<close>

text \<open>
  The application (\<open>main.ts\<close>, \<open>App.vue\<close>) talks to one \<open>KeycloakInstance\<close>
  of the library keycloak-js. It reads one field of it, \<open>keycloak.authenticated\<close>
  (declared \<open>authenticated?: boolean\<close>, so it may be undefined; the field is
  \<open>kc_authenticated\<close> below, the component having an \<open>authenticated\<close> of its own), and
  calls four of its methods, each of which returns a promise. The library itself is not part of the
  sources: what it does to its own state and how its promises settle is an input of the
  model, never a definition of it.
\<close>

datatype on_load = LoginRequired | CheckSso

record KeycloakInitOptions =
  onLoad :: on_load

text \<open>\<open>userInfo: any = {}\<close>: an object read as a mapping from claim names to values.\<close>

type_synonym claims = "string \<rightharpoonup> string"

record KeycloakInstance =
  kc_authenticated :: "bool option"

text \<open>JavaScript truthiness of an optional boolean: \<open>undefined\<close> and \<open>false\<close> are falsy.\<close>

fun truthy :: "bool option \<Rightarrow> bool" where
  "truthy None = False"
| "truthy (Some b) = b"

text \<open>The methods of the instance that the sources call.\<close>

datatype kc_call =
    Init KeycloakInitOptions
  | Login
  | Logout
  | LoadUserInfo

text \<open>
  The two arrow functions that \<open>mounted()\<close> passes to \<open>.then\<close>, by name. No other
  callback is attached to a promise anywhere in the sources, and none has a rejection
  handler.
\<close>

datatype handler = InitThen | LoadUserInfoThen

text \<open>
  A call of a method of the keycloak instance, with the \<open>.then\<close> callback attached to
  the promise it returns; \<open>None\<close> when the code drops the promise.
\<close>

type_synonym call = "kc_call \<times> handler option"

section \<open>The component (\<open>App.vue\<close>)\<close>

record component =
  authenticated :: bool
  userInfo :: claims

text \<open>The field initialisers: \<open>authenticated = false\<close>, \<open>userInfo = {}\<close>.\<close>

definition new_component :: component where
  "new_component = \<lparr>authenticated = False, userInfo = Map.empty\<rparr>"

text \<open>\<open>mounted()\<close>: \<open>keycloak.init({ onLoad: 'login-required' }).then(...)\<close>.\<close>

definition mounted :: "component \<Rightarrow> component \<times> call list" where
  "mounted this = (this, [(Init \<lparr>onLoad = LoginRequired\<rparr>, Some InitThen)])"

text \<open>
  The callback of \<open>init\<close>: \<open>this.authenticated = authenticated\<close>, and if
  \<open>authenticated\<close> then \<open>keycloak.loadUserInfo().then(...)\<close>.
\<close>

definition init_then :: "component \<Rightarrow> bool \<Rightarrow> component \<times> call list" where
  "init_then this a =
     (let this' = this\<lparr>authenticated := a\<rparr>
      in if a then (this', [(LoadUserInfo, Some LoadUserInfoThen)])
         else (this', []))"

text \<open>The callback of \<open>loadUserInfo\<close>: \<open>this.userInfo = userInfo\<close>.\<close>

definition loadUserInfo_then :: "component \<Rightarrow> claims \<Rightarrow> component \<times> call list" where
  "loadUserInfo_then this u = (this\<lparr>userInfo := u\<rparr>, [])"

text \<open>\<open>login() { keycloak.login(); }\<close> and \<open>logout() { keycloak.logout(); }\<close>.\<close>

definition login :: "component \<Rightarrow> component \<times> call list" where
  "login this = (this, [(Login, None)])"

definition logout :: "component \<Rightarrow> component \<times> call list" where
  "logout this = (this, [(Logout, None)])"

section \<open>The router and its guard (\<open>main.ts\<close>)\<close>

text \<open>
  \<open>meta.requiresAuth\<close> is absent (\<open>None\<close>) on a record that does not declare it. A
  \<open>Route\<close> carries the records the router matched for it, parents first.
\<close>

record RouteMeta =
  requiresAuth :: "bool option"

record RouteRecord =
  path :: string
  meta :: RouteMeta

record Route =
  fullPath :: string
  matched :: "RouteRecord list"

definition routes :: "RouteRecord list" where
  "routes = [\<lparr>path = ''/'', meta = \<lparr>requiresAuth = Some True\<rparr>\<rparr>]"

text \<open>The route that \<open>routes\<close> declares, as the router matches it.\<close>

definition home_route :: Route where
  "home_route = \<lparr>fullPath = ''/'', matched = routes\<rparr>"

text \<open>\<open>to.matched.some((record) => record.meta.requiresAuth)\<close>\<close>

definition some_requiresAuth :: "Route \<Rightarrow> bool" where
  "some_requiresAuth to = list_ex (\<lambda>record. truthy (requiresAuth (meta record))) (matched to)"

text \<open>
  The callback of \<open>router.beforeEach\<close> returns nothing; what it does is call
  \<open>keycloak.login()\<close>, dropping the promise, or the router's \<open>next()\<close>.
\<close>

datatype effect =
    Keycloak call
  | Next

definition beforeEach :: "KeycloakInstance \<Rightarrow> Route \<Rightarrow> Route \<Rightarrow> effect list" where
  "beforeEach keycloak to from =
     (if some_requiresAuth to then
        (if \<not> truthy (kc_authenticated keycloak) then [Keycloak (Login, None)]
         else [Next])
      else [Next])"

section \<open>The application as an event-driven machine\<close>

text \<open>
  JavaScript runs one callback at a time. The state between two callbacks is the
  keycloak instance, the component, the promises of keycloak calls that have not
  settled yet (each with the callback attached to it, if any), and a log of the
  navigations that \<open>next()\<close> completed, each with the instance as it was at that moment.
\<close>

record app =
  kc :: KeycloakInstance
  comp :: component
  pending :: "call list"
  completed :: "(Route \<times> KeycloakInstance) list"

text \<open>How the library settles a promise: with a value of the call's type, or rejected.\<close>

datatype settlement =
    Resolved_bool bool
  | Resolved_claims claims
  | Resolved_unit
  | Rejected

datatype event =
    Navigate Route Route
  | Mount
  | ClickLogin
  | ClickLogout
  | Settle nat settlement
  | LibrarySets "bool option"

text \<open>
  Performing what the guard did, in order: a keycloak call leaves a pending promise,
  \<open>next()\<close> completes the navigation to \<open>to\<close>.
\<close>

fun perform :: "Route \<Rightarrow> effect list \<Rightarrow> app \<Rightarrow> app" where
  "perform to [] a = a"
| "perform to (Keycloak c # es) a = perform to es (a\<lparr>pending := pending a @ [c]\<rparr>)"
| "perform to (Next # es) a = perform to es (a\<lparr>completed := completed a @ [(to, kc a)]\<rparr>)"

text \<open>
  Running the callback attached to a settled promise. A rejection runs nothing, since
  no rejection handler is attached; a promise resolves with a value of its own type.
\<close>

fun deliver :: "handler \<Rightarrow> settlement \<Rightarrow> component \<Rightarrow> component \<times> call list" where
  "deliver InitThen (Resolved_bool b) this = init_then this b"
| "deliver LoadUserInfoThen (Resolved_claims u) this = loadUserInfo_then this u"
| "deliver h s this = (this, [])"

text \<open>A method or callback of the component ran: its new fields, its calls pending.\<close>

definition run_component :: "component \<times> call list \<Rightarrow> app \<Rightarrow> app" where
  "run_component r a = a\<lparr>comp := fst r, pending := pending a @ snd r\<rparr>"

fun step :: "app \<Rightarrow> event \<Rightarrow> app" where
  "step a (Navigate to from) = perform to (beforeEach (kc a) to from) a"
| "step a Mount = run_component (mounted (comp a)) a"
| "step a ClickLogin = run_component (login (comp a)) a"
| "step a ClickLogout = run_component (logout (comp a)) a"
| "step a (Settle i s) =
     (if i < length (pending a) then
        (let a' = a\<lparr>pending := take i (pending a) @ drop (Suc i) (pending a)\<rparr>
         in case snd (pending a ! i) of
              None \<Rightarrow> a'
            | Some h \<Rightarrow> run_component (deliver h s (comp a')) a')
      else a)"
| "step a (LibrarySets v) = a\<lparr>kc := (kc a)\<lparr>kc_authenticated := v\<rparr>\<rparr>"

definition run :: "app \<Rightarrow> event list \<Rightarrow> app" where
  "run a es = foldl step a es"

text \<open>The application right after start: nothing pending, nothing navigated.\<close>

definition start :: "KeycloakInstance \<Rightarrow> app" where
  "start k = \<lparr>kc = k, comp = new_component, pending = [], completed = []\<rparr>"

text \<open>
  The property of the log that the guard is to keep: a navigation to a route that
  requires authentication was completed only with \<open>keycloak.authenticated\<close> truthy.
\<close>

definition guarded :: "(Route \<times> KeycloakInstance) list \<Rightarrow> bool" where
  "guarded log =
     list_all (\<lambda>(to, k). some_requiresAuth to \<longrightarrow> truthy (kc_authenticated k)) log"

text \<open>The keycloak calls that occur in the sources, each with the callback attached.\<close>

definition source_calls :: "call list" where
  "source_calls =
     [(Init \<lparr>onLoad = LoginRequired\<rparr>, Some InitThen),
      (LoadUserInfo, Some LoadUserInfoThen),
      (Login, None),
      (Logout, None)]"

section \<open>The shell scripts that call the backend\<close>

text \<open>
  The two scripts issue five \<open>curl\<close> commands. Each is the request it sends: the method,
  the \<open>-H\<close> headers in the order given, the \<open>--data-urlencode\<close> fields and the URL.
  The token is the output of \<open>jq -r '.access_token'\<close> on the identity provider's answer,
  an input here.
\<close>

datatype http_method = GET | POST

record http_request =
  verb :: http_method
  headers :: "(string \<times> string) list"
  form :: "(string \<times> string) list"
  url :: string

definition token_endpoint :: string where
  "token_endpoint =
     ''http://keycloak.apps-crc.testing/realms/CommonServices/protocol/openid-connect/token''"

definition backend :: string where
  "backend = ''http://127.0.0.1:8000''"

text \<open>First script: "generate a token from frontend public client".\<close>

definition generate_token_frontend :: http_request where
  "generate_token_frontend =
     \<lparr>verb = POST,
      headers = [(''Content-Type'', ''application/x-www-form-urlencoded''),
                 (''Accept'', ''application/json'')],
      form = [(''client_id'', ''test-app-frontend''), (''grant_type'', ''password''),
                (''username'', ''okaiyong''), (''password'', ''1'')],
      url = token_endpoint\<rparr>"

text \<open>First script: "call a backend api with this token".\<close>

definition call_backend_api :: "string \<Rightarrow> http_request" where
  "call_backend_api TOKEN_FRONTEND =
     \<lparr>verb = GET,
      headers = [(''Authorization'', ''Bearer '' @ TOKEN_FRONTEND)],
      form = [],
      url = backend\<rparr>"

text \<open>Second script: "Test Keycloak Client".\<close>

definition test_keycloak_client :: http_request where
  "test_keycloak_client =
     \<lparr>verb = POST,
      headers = [(''Content-Type'', ''application/x-www-form-urlencoded'')],
      form = [(''client_id'', ''appstore''), (''grant_type'', ''password''),
                (''client_secret'', ''K5egGlT3AlaQxy3VsG1Q4TB9sHYvX7ME''),
                (''scope'', ''openid''), (''username'', ''okaiyong''), (''password'', ''1'')],
      url = token_endpoint\<rparr>"

text \<open>Second script: "Get token".\<close>

definition get_token :: http_request where
  "get_token =
     \<lparr>verb = POST,
      headers = [(''Content-Type'', ''application/x-www-form-urlencoded''),
                 (''Accept'', ''application/json'')],
      form = [(''client_id'', ''appstore''), (''grant_type'', ''password''),
                (''client_secret'', ''K5egGlT3AlaQxy3VsG1Q4TB9sHYvX7ME''),
                (''scope'', ''openid''), (''username'', ''okaiyong''), (''password'', ''1'')],
      url = token_endpoint\<rparr>"

text \<open>Second script: "Test secured endpoint".\<close>

definition test_secured_endpoint :: "string \<Rightarrow> http_request" where
  "test_secured_endpoint TOKEN =
     \<lparr>verb = GET,
      headers = [(''Accept'', ''application/json''),
                 (''Authorization'', ''Bearer '' @ TOKEN)],
      form = [],
      url = backend\<rparr>"

text \<open>The requests of both scripts, in the order sent, and those that go to the backend.\<close>

definition script_requests :: "string \<Rightarrow> http_request list" where
  "script_requests tok =
     [generate_token_frontend, call_backend_api tok,
      test_keycloak_client, get_token, test_secured_endpoint tok]"

definition backend_requests :: "string \<Rightarrow> http_request list" where
  "backend_requests tok = filter (\<lambda>r. url r = backend) (script_requests tok)"

definition header :: "string \<Rightarrow> http_request \<Rightarrow> string option" where
  "header name r = map_of (headers r) name"

definition carries_bearer :: "string \<Rightarrow> http_request \<Rightarrow> bool" where
  "carries_bearer tok r = (header ''Authorization'' r = Some (''Bearer '' @ tok))"

definition carries_accept_json :: "http_request \<Rightarrow> bool" where
  "carries_accept_json r = (header ''Accept'' r = Some ''application/json'')"

text \<open>
  The specification's sentence about a request to the backend: it "carries
  \<open>Authorization: Bearer <access_token>\<close>, \<open>Accept: application/json\<close>".
\<close>

definition carries_bearer_and_accept :: "string \<Rightarrow> http_request \<Rightarrow> bool" where
  "carries_bearer_and_accept tok r = (carries_bearer tok r \<and> carries_accept_json r)"

section \<open>The session manager, from the specification\<close>

text \<open>
  Modelled from the spec: the session and the \<open>logout()\<close> and \<open>login()\<close> operations of
  the session manager. In the sources they are \<open>keycloak.logout()\<close> and
  \<open>keycloak.login()\<close> of the library keycloak-js, whose code is not part of the
  repository's files; only their callers are. The definitions follow sections 3, 4.1
  and 5 of the specification.
\<close>

datatype session_state = Unauthenticated | Authenticating | Authenticated | Expired | Error

record session =
  state :: session_state
  accessToken :: "string option"
  refreshToken :: "string option"
  expiresAt :: "nat option"
  sess_userInfo :: claims
  audience :: string
  refreshScheduled :: bool
  inFlight :: "nat option"
  exchanges :: nat

text \<open>
  Modelled from the spec: whether the identity provider can be reached when an
  operation notifies it, and the error taxonomy of section 7.
\<close>

datatype network = Reachable | Unreachable

datatype sm_error =
    NetworkError
  | AuthenticationError
  | InitError
  | SessionExpiredError
  | NotAuthenticatedError

text \<open>
  Modelled from the spec: \<open>logout()\<close> "transitions to Unauthenticated, clears all token
  fields, cancels any scheduled refresh, and best-effort notifies the identity
  provider's end-session endpoint. Never fails observably to the caller - logout
  always succeeds locally even if the network notification fails". The first component
  is what the caller observes, an error or normal completion.
\<close>

definition sm_logout :: "network \<Rightarrow> session \<Rightarrow> (sm_error + unit) \<times> session" where
  "sm_logout net s =
     (Inr (), s\<lparr>state := Unauthenticated, accessToken := None, refreshToken := None,
                expiresAt := None, refreshScheduled := False\<rparr>)"

text \<open>
  Modelled from the spec: "Only one login or refresh operation may be in flight at a
  time - a concurrent second call while one is pending must attach to the in-flight
  result rather than starting a duplicate network exchange". A call returns the
  operation its caller waits for; a new operation is numbered by the count of
  exchanges started so far and moves the session to \<open>Authenticating\<close>.
\<close>

definition sm_login :: "session \<Rightarrow> nat \<times> session" where
  "sm_login s =
     (case inFlight s of
        Some p \<Rightarrow> (p, s)
      | None \<Rightarrow>
          (exchanges s,
           s\<lparr>state := Authenticating, inFlight := Some (exchanges s),
             exchanges := Suc (exchanges s)\<rparr>))"

text \<open>
  Modelled from the spec: the calls of a piece of application code, carried out by the
  session manager in order. Calls other than \<open>login\<close> and \<open>logout\<close> are outside
  this model and leave the session as it is.
\<close>

fun sm_calls :: "network \<Rightarrow> call list \<Rightarrow> session \<Rightarrow> session" where
  "sm_calls net [] s = s"
| "sm_calls net ((Login, h) # cs) s = sm_calls net cs (snd (sm_login s))"
| "sm_calls net ((Logout, h) # cs) s = sm_calls net cs (snd (sm_logout net s))"
| "sm_calls net (c # cs) s = sm_calls net cs s"

text \<open>
  Modelled from the spec: the session as "created at application bootstrap
  (empty/Unauthenticated)", and the session of the specification's scenario, after a
  login that the provider answered with \<open>access_token: "T1"\<close>, \<open>refresh_token: "R1"\<close>,
  \<open>expires_in: 60\<close>.
\<close>

definition new_session :: session where
  "new_session =
     \<lparr>state = Unauthenticated, accessToken = None, refreshToken = None, expiresAt = None,
      sess_userInfo = Map.empty, audience = ''your-vue-client-id'',
      refreshScheduled = False, inFlight = None, exchanges = 0\<rparr>"

definition scenario_session :: session where
  "scenario_session =
     \<lparr>state = Authenticated, accessToken = Some ''T1'', refreshToken = Some ''R1'',
      expiresAt = Some 60, sess_userInfo = Map.empty, audience = ''your-vue-client-id'',
      refreshScheduled = True, inFlight = None, exchanges = 1\<rparr>"

text \<open>
  Modelled from the spec: what the identity provider answers when a bootstrap or a
  login reaches it, a token set (\<open>access_token\<close>, \<open>refresh_token\<close>, \<open>expires_in\<close> in
  seconds) or a refusal (rejected credentials, or no provider session to find).
\<close>

datatype provider = Grants string string nat | Refuses

text \<open>
  Modelled from the spec: \<open>init(options)\<close>, in the sources \<open>keycloak.init\<close> of the
  library keycloak-js, whose code is not part of the repository's files. It is an
  "idempotent bootstrap": an \<open>Authenticated\<close> session is left as it is. It "fails with
  \<open>InitError\<close> if the identity provider is unreachable". Otherwise a token set moves
  the session to \<open>Authenticated\<close>, with \<open>expiresAt\<close> derived from the declared lifetime
  and the refresh scheduled. On a refusal \<open>login-required\<close>, which "forces immediate
  redirect to the identity provider if unauthenticated", ends in \<open>Error\<close> as an
  \<open>Authenticating\<close> session that the provider rejects does, and \<open>check-sso\<close>, which
  "silently checks for an existing provider session without forcing a redirect",
  leaves the session as it was. The first component is how the promise settles:
  rejected with an error, or resolved with the boolean.
\<close>

definition sm_init ::
  "KeycloakInitOptions \<Rightarrow> network \<Rightarrow> provider \<Rightarrow> nat \<Rightarrow> session
     \<Rightarrow> (sm_error + bool) \<times> session" where
  "sm_init opts net idp now s =
     (if state s = Authenticated then (Inr True, s)
      else if net = Unreachable then (Inl InitError, s\<lparr>state := Error\<rparr>)
      else case idp of
          Grants a r n \<Rightarrow>
            (Inr True,
             s\<lparr>state := Authenticated, accessToken := Some a, refreshToken := Some r,
               expiresAt := Some (now + n), refreshScheduled := True\<rparr>)
        | Refuses \<Rightarrow>
            (case onLoad opts of
               LoginRequired \<Rightarrow> (Inr False, s\<lparr>state := Error\<rparr>)
             | CheckSso \<Rightarrow> (Inr False, s)))"

text \<open>
  Modelled from the spec: how the promise of a session manager operation that returns
  a boolean settles, and the \<open>authenticated\<close> field that the instance shows for a
  session, true exactly in the state \<open>Authenticated\<close>.
\<close>

fun sm_settlement :: "sm_error + bool \<Rightarrow> settlement" where
  "sm_settlement (Inl e) = Rejected"
| "sm_settlement (Inr b) = Resolved_bool b"

definition sm_authenticated :: "session \<Rightarrow> bool option" where
  "sm_authenticated s = Some (state s = Authenticated)"

section \<open>The guard and the log of completed navigations\<close>

lemma beforeEach_gate:
  "some_requiresAuth to \<Longrightarrow> \<not> truthy (kc_authenticated keycloak) \<Longrightarrow>
   beforeEach keycloak to from = [Keycloak (Login, None)]"
  by (simp add: beforeEach_def)

lemma beforeEach_Next:
  "Next \<in> set (beforeEach keycloak to from) \<Longrightarrow> some_requiresAuth to \<Longrightarrow>
   truthy (kc_authenticated keycloak)"
  by (auto simp: beforeEach_def split: if_splits)

lemma perform_guarded:
  "guarded (completed a) \<Longrightarrow>
   (Next \<in> set es \<Longrightarrow> some_requiresAuth to \<Longrightarrow> truthy (kc_authenticated (kc a))) \<Longrightarrow>
   guarded (completed (perform to es a))"
  by (induction to es a rule: perform.induct) (auto simp: guarded_def)

lemma step_guarded: "guarded (completed a) \<Longrightarrow> guarded (completed (step a e))"
proof (cases e)
  case (Navigate t f)
  assume g: "guarded (completed a)"
  show ?thesis unfolding Navigate step.simps
    by (rule perform_guarded [OF g]) (rule beforeEach_Next)
next
  case (Settle i s)
  then show "guarded (completed a) \<Longrightarrow> ?thesis"
    by (auto simp: run_component_def Let_def split: option.splits)
qed (auto simp: run_component_def)

lemma run_guarded: "guarded (completed a) \<Longrightarrow> guarded (completed (run a es))"
  unfolding run_def
  by (induction es arbitrary: a) (auto simp: step_guarded)

lemma home_requiresAuth: "some_requiresAuth home_route"
  by (simp add: some_requiresAuth_def home_route_def routes_def)

text \<open>
  C1. When the target of a navigation requires authentication and
  \<open>keycloak.authenticated\<close> is falsy, the guard does not call \<open>next()\<close>, so the
  navigation is not completed; and in every run of the application from its start,
  whatever the events, every completed navigation to a route requiring authentication
  was completed with \<open>keycloak.authenticated\<close> truthy.
\<close>

theorem guard_never_completes_unauthenticated:
  assumes "some_requiresAuth to" and "\<not> truthy (kc_authenticated (kc a))"
  shows "Next \<notin> set (beforeEach (kc a) to from)
       \<and> completed (step a (Navigate to from)) = completed a
       \<and> guarded (completed (run (start k) es))"
proof -
  have b: "beforeEach (kc a) to from = [Keycloak (Login, None)]"
    using assms by (rule beforeEach_gate)
  have "guarded (completed (start k))"
    by (simp add: start_def guarded_def)
  then have "guarded (completed (run (start k) es))"
    by (rule run_guarded)
  with b show ?thesis by simp
qed

theorem guard_never_completes_unauthenticated_witness:
  "some_requiresAuth home_route
   \<and> \<not> truthy (kc_authenticated (kc (start \<lparr>kc_authenticated = None\<rparr>)))
   \<and> Next \<notin> set (beforeEach \<lparr>kc_authenticated = None\<rparr> home_route home_route)
   \<and> completed (step (start \<lparr>kc_authenticated = None\<rparr>) (Navigate home_route home_route)) = []
   \<and> guarded (completed (run (start \<lparr>kc_authenticated = Some False\<rparr>)
        [Navigate home_route home_route, LibrarySets (Some True),
         Navigate home_route home_route]))
   \<and> completed (run (start \<lparr>kc_authenticated = Some False\<rparr>)
        [Navigate home_route home_route, LibrarySets (Some True),
         Navigate home_route home_route])
      = [(home_route, \<lparr>kc_authenticated = Some True\<rparr>)]"
proof -
  have h2: "\<not> truthy (kc_authenticated (kc (start \<lparr>kc_authenticated = None\<rparr>)))"
    by (simp add: start_def)
  have r: "completed (run (start \<lparr>kc_authenticated = Some False\<rparr>)
        [Navigate home_route home_route, LibrarySets (Some True),
         Navigate home_route home_route])
      = [(home_route, \<lparr>kc_authenticated = Some True\<rparr>)]"
    using home_requiresAuth by (simp add: run_def start_def beforeEach_def)
  show ?thesis
    using guard_never_completes_unauthenticated [OF home_requiresAuth h2,
        of home_route "\<lparr>kc_authenticated = Some False\<rparr>"
           "[Navigate home_route home_route, LibrarySets (Some True),
             Navigate home_route home_route]"]
      home_requiresAuth r
    by (simp add: start_def)
qed

section \<open>What the guard does with the login it starts\<close>

text \<open>
  C2, as stated, at a concrete run. The application starts unauthenticated and
  navigates to the protected route: the guard calls \<open>keycloak.login()\<close>. The library
  then marks the session authenticated and resolves the promise of that login. The
  navigation has still not been completed: \<open>next()\<close> was never called for it.
\<close>

theorem login_resolution_does_not_resume_navigation:
  "pending (run (start \<lparr>kc_authenticated = None\<rparr>) [Navigate home_route home_route])
     = [(Login, None)]
   \<and> truthy (kc_authenticated (kc (run (start \<lparr>kc_authenticated = None\<rparr>)
        [Navigate home_route home_route, LibrarySets (Some True), Settle 0 Resolved_unit])))
   \<and> completed (run (start \<lparr>kc_authenticated = None\<rparr>)
        [Navigate home_route home_route, LibrarySets (Some True), Settle 0 Resolved_unit])
     = []"
  using home_requiresAuth by (simp add: run_def start_def beforeEach_def)

text \<open>
  C2, amended. For a navigation to a route requiring authentication while
  \<open>keycloak.authenticated\<close> is falsy, the guard calls \<open>keycloak.login()\<close> once, drops
  its promise and does not call \<open>next()\<close>. However that login settles, and whatever the
  library has set \<open>keycloak.authenticated\<close> to meanwhile, the settlement runs no code:
  the application is as it was before the navigation, with nothing completed. A
  navigation to the same route is completed when the guard runs again with
  \<open>keycloak.authenticated\<close> true.
\<close>

theorem guard_login_suspends_without_resuming:
  assumes "some_requiresAuth to" and "\<not> truthy (kc_authenticated (kc a))"
  shows "step a (Navigate to from) = a\<lparr>pending := pending a @ [(Login, None)]\<rparr>
       \<and> step (step (step a (Navigate to from)) (LibrarySets v)) (Settle (length (pending a)) s)
           = a\<lparr>kc := (kc a)\<lparr>kc_authenticated := v\<rparr>\<rparr>
       \<and> completed (step (a\<lparr>kc := (kc a)\<lparr>kc_authenticated := Some True\<rparr>\<rparr>) (Navigate to from))
           = completed a @ [(to, (kc a)\<lparr>kc_authenticated := Some True\<rparr>)]"
proof -
  have b: "beforeEach (kc a) to from = [Keycloak (Login, None)]"
    using assms by (rule beforeEach_gate)
  have 1: "step a (Navigate to from) = a\<lparr>pending := pending a @ [(Login, None)]\<rparr>"
    by (simp add: b)
  have 2: "step (step (a\<lparr>pending := pending a @ [(Login, None)]\<rparr>) (LibrarySets v))
             (Settle (length (pending a)) s) = a\<lparr>kc := (kc a)\<lparr>kc_authenticated := v\<rparr>\<rparr>"
    by simp
  have 3: "completed (step (a\<lparr>kc := (kc a)\<lparr>kc_authenticated := Some True\<rparr>\<rparr>) (Navigate to from))
           = completed a @ [(to, (kc a)\<lparr>kc_authenticated := Some True\<rparr>)]"
    using assms(1) by (simp add: beforeEach_def)
  from 1 2 3 show ?thesis by simp
qed

theorem guard_login_suspends_without_resuming_witness:
  "some_requiresAuth home_route
   \<and> \<not> truthy (kc_authenticated (kc (start \<lparr>kc_authenticated = None\<rparr>)))
   \<and> step (start \<lparr>kc_authenticated = None\<rparr>) (Navigate home_route home_route)
       = (start \<lparr>kc_authenticated = None\<rparr>)\<lparr>pending := [(Login, None)]\<rparr>
   \<and> step (step (step (start \<lparr>kc_authenticated = None\<rparr>) (Navigate home_route home_route))
                 (LibrarySets (Some False))) (Settle 0 Rejected)
       = start \<lparr>kc_authenticated = Some False\<rparr>
   \<and> completed (step (start \<lparr>kc_authenticated = Some True\<rparr>) (Navigate home_route home_route))
       = [(home_route, \<lparr>kc_authenticated = Some True\<rparr>)]"
proof -
  have h2: "\<not> truthy (kc_authenticated (kc (start \<lparr>kc_authenticated = None\<rparr>)))"
    by (simp add: start_def)
  show ?thesis
    using guard_login_suspends_without_resuming [OF home_requiresAuth h2,
        of home_route "Some False" Rejected] home_requiresAuth
    by (simp add: start_def)
qed

section \<open>Which navigations the guard gates\<close>

text \<open>
  C9. If any record matched for the target, a parent's included, has a truthy
  \<open>meta.requiresAuth\<close>, the navigation requires authentication: the guard calls
  \<open>next()\<close> only if \<open>keycloak.authenticated\<close> is truthy and calls \<open>keycloak.login()\<close>
  otherwise. The witness is a child route without a flag of its own under a protected
  parent.
\<close>

theorem any_matched_record_gates:
  assumes "record \<in> set (matched to)" and "truthy (requiresAuth (meta record))"
  shows "some_requiresAuth to
       \<and> beforeEach keycloak to from
           = (if truthy (kc_authenticated keycloak) then [Next] else [Keycloak (Login, None)])"
proof -
  have "some_requiresAuth to"
    using assms unfolding some_requiresAuth_def list_ex_iff by blast
  then show ?thesis by (simp add: beforeEach_def)
qed

theorem any_matched_record_gates_witness:
  "\<lparr>path = ''/admin'', meta = \<lparr>requiresAuth = Some True\<rparr>\<rparr>
     \<in> set (matched \<lparr>fullPath = ''/admin/users'', matched =
          [\<lparr>path = ''/admin'', meta = \<lparr>requiresAuth = Some True\<rparr>\<rparr>,
           \<lparr>path = ''users'', meta = \<lparr>requiresAuth = None\<rparr>\<rparr>]\<rparr>)
   \<and> truthy (requiresAuth (meta \<lparr>path = ''/admin'', meta = \<lparr>requiresAuth = Some True\<rparr>\<rparr>))
   \<and> beforeEach \<lparr>kc_authenticated = None\<rparr>
        \<lparr>fullPath = ''/admin/users'', matched =
          [\<lparr>path = ''/admin'', meta = \<lparr>requiresAuth = Some True\<rparr>\<rparr>,
           \<lparr>path = ''users'', meta = \<lparr>requiresAuth = None\<rparr>\<rparr>]\<rparr> home_route
       = [Keycloak (Login, None)]"
  using any_matched_record_gates [of "\<lparr>path = ''/admin'', meta = \<lparr>requiresAuth = Some True\<rparr>\<rparr>"
      "\<lparr>fullPath = ''/admin/users'', matched =
          [\<lparr>path = ''/admin'', meta = \<lparr>requiresAuth = Some True\<rparr>\<rparr>,
           \<lparr>path = ''users'', meta = \<lparr>requiresAuth = None\<rparr>\<rparr>]\<rparr>"
      "\<lparr>kc_authenticated = None\<rparr>" home_route]
  by simp

section \<open>What writes the component's fields\<close>

text \<open>
  C10. The component's \<open>login()\<close> and \<open>logout()\<close> leave the component's fields as they
  are, as methods and as events of the running application. The field
  \<open>authenticated\<close> changes only when a promise carrying the \<open>init\<close> callback of
  \<open>mounted()\<close> resolves, and \<open>userInfo\<close> only when one carrying the \<open>loadUserInfo\<close>
  callback nested in it resolves.
\<close>

theorem login_logout_leave_component_fields:
  "fst (login this) = this \<and> fst (logout this) = this
   \<and> comp (step a ClickLogin) = comp a \<and> comp (step a ClickLogout) = comp a
   \<and> (authenticated (comp (step a e)) \<noteq> authenticated (comp a) \<longrightarrow>
        (\<exists>i b. e = Settle i (Resolved_bool b) \<and> i < length (pending a)
             \<and> snd (pending a ! i) = Some InitThen))
   \<and> (userInfo (comp (step a e)) \<noteq> userInfo (comp a) \<longrightarrow>
        (\<exists>i u. e = Settle i (Resolved_claims u) \<and> i < length (pending a)
             \<and> snd (pending a ! i) = Some LoadUserInfoThen))"
proof -
  have m: "fst (login this) = this \<and> fst (logout this) = this"
    by (simp add: login_def logout_def)
  have c: "comp (step a ClickLogin) = comp a \<and> comp (step a ClickLogout) = comp a"
    by (simp add: run_component_def login_def logout_def)
  have perform_comp: "comp (perform t es x) = comp x" for t es x
    by (induction t es x rule: perform.induct) auto
  have d1: "authenticated (fst (deliver h s x)) \<noteq> authenticated x \<Longrightarrow>
            \<exists>b. s = Resolved_bool b \<and> h = InitThen" for h s x
    by (cases "(h, s, x)" rule: deliver.cases)
       (auto simp: init_then_def loadUserInfo_then_def Let_def)
  have d2: "userInfo (fst (deliver h s x)) \<noteq> userInfo x \<Longrightarrow>
            \<exists>u. s = Resolved_claims u \<and> h = LoadUserInfoThen" for h s x
    by (cases "(h, s, x)" rule: deliver.cases)
       (auto simp: init_then_def loadUserInfo_then_def Let_def)
  have a: "authenticated (comp (step a e)) \<noteq> authenticated (comp a) \<longrightarrow>
        (\<exists>i b. e = Settle i (Resolved_bool b) \<and> i < length (pending a)
             \<and> snd (pending a ! i) = Some InitThen)"
  proof (cases e)
    case (Settle i s)
    then show ?thesis
      using d1 [of _ s "comp a"]
      by (auto simp: run_component_def Let_def split: option.splits if_splits)
  qed (auto simp: run_component_def perform_comp mounted_def login_def logout_def)
  have u: "userInfo (comp (step a e)) \<noteq> userInfo (comp a) \<longrightarrow>
        (\<exists>i u. e = Settle i (Resolved_claims u) \<and> i < length (pending a)
             \<and> snd (pending a ! i) = Some LoadUserInfoThen)"
  proof (cases e)
    case (Settle i s)
    then show ?thesis
      using d2 [of _ s "comp a"]
      by (auto simp: run_component_def Let_def split: option.splits if_splits)
  qed (auto simp: run_component_def perform_comp mounted_def login_def logout_def)
  from m c a u show ?thesis by blast
qed

theorem login_logout_leave_component_fields_witness:
  "authenticated (comp (step (step (start \<lparr>kc_authenticated = None\<rparr>) Mount)
       (Settle 0 (Resolved_bool True))))
     \<noteq> authenticated (comp (step (start \<lparr>kc_authenticated = None\<rparr>) Mount))
   \<and> (\<exists>i b. Settle 0 (Resolved_bool True) = Settle i (Resolved_bool b)
         \<and> i < length (pending (step (start \<lparr>kc_authenticated = None\<rparr>) Mount))
         \<and> snd (pending (step (start \<lparr>kc_authenticated = None\<rparr>) Mount) ! i) = Some InitThen)
   \<and> comp (step (step (step (start \<lparr>kc_authenticated = None\<rparr>) Mount)
       (Settle 0 (Resolved_bool True))) ClickLogout)
     = \<lparr>authenticated = True, userInfo = Map.empty\<rparr>"
proof -
  let ?a = "step (start \<lparr>kc_authenticated = None\<rparr>) Mount"
  let ?b = "step ?a (Settle 0 (Resolved_bool True))"
  have c: "comp ?b = \<lparr>authenticated = True, userInfo = Map.empty\<rparr>"
    by (simp add: start_def run_component_def mounted_def init_then_def new_component_def)
  have n: "authenticated (comp ?b) \<noteq> authenticated (comp ?a)"
    by (simp add: start_def run_component_def mounted_def init_then_def new_component_def)
  note t = login_logout_leave_component_fields
    [of "comp ?b" ?b "Settle 0 (Resolved_bool True)"]
  note t' = login_logout_leave_component_fields
    [of "comp ?a" ?a "Settle 0 (Resolved_bool True)"]
  from t have l: "comp (step ?b ClickLogout) = comp ?b" by blast
  from t' n have e: "\<exists>i b. Settle 0 (Resolved_bool True) = Settle i (Resolved_bool b)
         \<and> i < length (pending ?a) \<and> snd (pending ?a ! i) = Some InitThen"
    by blast
  from n e l c show ?thesis by simp
qed

section \<open>The bootstrap of the component\<close>

lemma sm_init_resolves:
  "sm_init opts net idp now s = (Inr b, s') \<Longrightarrow> b = (state s' = Authenticated)"
  by (auto simp: sm_init_def split: if_splits provider.splits on_load.splits)

lemma sm_init_rejects:
  "sm_init opts net idp now s = (Inl e, s') \<Longrightarrow> e = InitError \<and> net = Unreachable"
  by (auto simp: sm_init_def split: if_splits provider.splits on_load.splits)

lemma mounted_pending:
  "step a Mount = a\<lparr>pending := pending a @ [(Init \<lparr>onLoad = LoginRequired\<rparr>, Some InitThen)]\<rparr>"
  by (simp add: run_component_def mounted_def)

lemma init_then_authenticated: "authenticated (fst (init_then this b)) = b"
  by (simp add: init_then_def Let_def)

lemma mounted_then_resolved:
  "comp (step (step (step a Mount) (LibrarySets v)) (Settle (length (pending a)) (Resolved_bool b)))
     = fst (init_then (comp a) b)"
  by (simp add: run_component_def mounted_def)

text \<open>
  C4. With the session manager's \<open>init\<close> as the specification describes it, a promise
  of \<open>init\<close> that resolves does so with a boolean, and that boolean is true exactly if
  the session ended up \<open>Authenticated\<close>. \<open>mounted()\<close> calls
  \<open>init({ onLoad: 'login-required' })\<close> and attaches its callback; once the promise of
  that call has resolved, the component's \<open>authenticated\<close> field is the resolved value,
  hence true exactly if the session ended up \<open>Authenticated\<close>, and it agrees with the
  \<open>keycloak.authenticated\<close> that the instance shows for that session.
\<close>

theorem mounted_sets_authenticated_from_init:
  assumes "sm_init \<lparr>onLoad = LoginRequired\<rparr> net idp now s = (r, s')"
    and "r = Inr b"
  shows "b = (state s' = Authenticated)
       \<and> sm_settlement r = Resolved_bool b
       \<and> step a Mount
           = a\<lparr>pending := pending a @ [(Init \<lparr>onLoad = LoginRequired\<rparr>, Some InitThen)]\<rparr>
       \<and> authenticated (comp (step (step a Mount) (Settle (length (pending a)) (sm_settlement r))))
           = b
       \<and> authenticated (fst (init_then this b)) = b
       \<and> authenticated (comp (step (step (step a Mount) (LibrarySets (sm_authenticated s')))
             (Settle (length (pending a)) (sm_settlement r))))
           = truthy (kc_authenticated (kc (step (step (step a Mount)
               (LibrarySets (sm_authenticated s'))) (Settle (length (pending a)) (sm_settlement r)))))"
proof -
  from assms have 1: "b = (state s' = Authenticated)"
    using sm_init_resolves by blast
  from assms(2) have 2: "sm_settlement r = Resolved_bool b"
    by simp
  have 4: "authenticated (comp (step (step a Mount) (Settle (length (pending a)) (Resolved_bool b))))
      = b"
    by (simp add: run_component_def mounted_def init_then_authenticated)
  let ?c = "step (step (step a Mount) (LibrarySets (sm_authenticated s')))
      (Settle (length (pending a)) (Resolved_bool b))"
  have 5: "authenticated (comp ?c) = b"
    unfolding mounted_then_resolved by (rule init_then_authenticated)
  have 6: "kc ?c = (kc a)\<lparr>kc_authenticated := sm_authenticated s'\<rparr>"
    by (simp add: run_component_def mounted_def split: prod.splits)
  have 7: "truthy (kc_authenticated (kc ?c)) = b"
    unfolding 6 by (simp add: sm_authenticated_def 1)
  have 8: "authenticated (comp ?c) = truthy (kc_authenticated (kc ?c))"
    by (simp only: 5 7)
  show ?thesis
    unfolding 2 by (intro conjI 1 refl mounted_pending 4 init_then_authenticated 8)
qed

theorem mounted_sets_authenticated_from_init_witness:
  "sm_init \<lparr>onLoad = LoginRequired\<rparr> Reachable (Grants ''T1'' ''R1'' 60) 0 new_session
     = (Inr True, scenario_session\<lparr>exchanges := 0\<rparr>)
   \<and> state (scenario_session\<lparr>exchanges := 0\<rparr>) = Authenticated
   \<and> authenticated (comp (run (start \<lparr>kc_authenticated = None\<rparr>)
        [Mount, LibrarySets (sm_authenticated (scenario_session\<lparr>exchanges := 0\<rparr>)),
         Settle 0 (Resolved_bool True)]))
   \<and> truthy (kc_authenticated (kc (run (start \<lparr>kc_authenticated = None\<rparr>)
        [Mount, LibrarySets (sm_authenticated (scenario_session\<lparr>exchanges := 0\<rparr>)),
         Settle 0 (Resolved_bool True)])))
   \<and> sm_init \<lparr>onLoad = LoginRequired\<rparr> Reachable Refuses 0 new_session
     = (Inr False, new_session\<lparr>state := Error\<rparr>)
   \<and> \<not> authenticated (comp (run (start \<lparr>kc_authenticated = None\<rparr>)
        [Mount, Settle 0 (Resolved_bool False)]))"
proof -
  let ?a = "start \<lparr>kc_authenticated = None\<rparr>"
  let ?s = "scenario_session\<lparr>exchanges := 0\<rparr>"
  have l: "length (pending ?a) = 0"
    by (simp add: start_def)
  have g: "sm_init \<lparr>onLoad = LoginRequired\<rparr> Reachable (Grants ''T1'' ''R1'' 60) 0 new_session
      = (Inr True, ?s)"
    by (simp add: sm_init_def new_session_def scenario_session_def)
  have d: "sm_init \<lparr>onLoad = LoginRequired\<rparr> Reachable Refuses 0 new_session
      = (Inr False, new_session\<lparr>state := Error\<rparr>)"
    by (simp add: sm_init_def new_session_def)
  note t = mounted_sets_authenticated_from_init [OF g refl, of ?a new_component]
  note f = mounted_sets_authenticated_from_init [OF d refl, of ?a new_component]
  from t have 1: "state ?s = Authenticated"
    by blast
  have 3: "truthy (kc_authenticated (kc (step (step (step ?a Mount)
      (LibrarySets (sm_authenticated ?s))) (Settle (length (pending ?a)) (sm_settlement (Inr True))))))"
    by (simp add: start_def run_component_def mounted_def sm_authenticated_def
        scenario_session_def split: prod.splits)
  from t 3 have 2: "authenticated (comp (step (step (step ?a Mount) (LibrarySets (sm_authenticated ?s)))
      (Settle (length (pending ?a)) (sm_settlement (Inr True)))))"
    by blast
  from f have 4: "\<not> authenticated (comp (step (step ?a Mount)
      (Settle (length (pending ?a)) (sm_settlement (Inr False)))))"
    by blast
  from g 1 2 3 d 4 show ?thesis
    unfolding l run_def by simp
qed

section \<open>Loading the user's claims\<close>

lemma set_remove_nth: "set (take i xs @ drop (Suc i) xs) \<subseteq> set xs"
  using set_take_subset [of i xs] set_drop_subset [of "Suc i" xs] by auto

lemma deliver_LoadUserInfo:
  "(LoadUserInfo, h) \<in> set (snd (deliver g s x)) \<Longrightarrow>
   g = InitThen \<and> s = Resolved_bool True \<and> h = Some LoadUserInfoThen"
  by (cases "(g, s, x)" rule: deliver.cases)
     (auto simp: init_then_def loadUserInfo_then_def Let_def split: if_splits)

lemma deliver_source_calls: "set (snd (deliver g s x)) \<subseteq> set source_calls"
  by (cases "(g, s, x)" rule: deliver.cases)
     (auto simp: init_then_def loadUserInfo_then_def source_calls_def Let_def)

lemma perform_pending:
  "set (pending (perform t es x)) = set (pending x) \<union> {c. Keycloak c \<in> set es}"
  by (induction t es x rule: perform.induct) auto

lemma step_source_calls:
  assumes "set (pending a) \<subseteq> set source_calls"
  shows "set (pending (step a e)) \<subseteq> set source_calls"
proof (cases e)
  case (Navigate t f)
  with assms show ?thesis
    by (auto simp: perform_pending beforeEach_def source_calls_def split: if_splits)
next
  case (Settle i s)
  from assms have "set (take i (pending a) @ drop (Suc i) (pending a)) \<subseteq> set source_calls"
    using set_remove_nth [of i "pending a"] by blast
  with assms show ?thesis
    unfolding Settle using deliver_source_calls
    by (auto simp: run_component_def Let_def split: option.splits)
qed (insert assms, auto simp: run_component_def mounted_def login_def logout_def source_calls_def)

lemma run_source_calls:
  "set (pending a) \<subseteq> set source_calls \<Longrightarrow> set (pending (run a es)) \<subseteq> set source_calls"
  unfolding run_def
  by (induction es arbitrary: a) (auto simp del: step.simps dest: step_source_calls)

lemma new_LoadUserInfo:
  assumes in': "(LoadUserInfo, h) \<in> set (pending (step a e))"
    and out: "(LoadUserInfo, h) \<notin> set (pending a)"
  shows "\<exists>i. e = Settle i (Resolved_bool True) \<and> i < length (pending a)
            \<and> snd (pending a ! i) = Some InitThen"
proof (cases e)
  case (Navigate t f)
  with assms show ?thesis
    by (auto simp: perform_pending beforeEach_def split: if_splits)
next
  case (Settle i s)
  from out have rm: "(LoadUserInfo, h) \<notin> set (take i (pending a) @ drop (Suc i) (pending a))"
    using set_remove_nth [of i "pending a"] by blast
  from in' out have i: "i < length (pending a)"
    unfolding Settle by (auto split: if_splits)
  from in' rm i obtain g where g: "snd (pending a ! i) = Some g"
    and d: "(LoadUserInfo, h) \<in> set (snd (deliver g s (comp a)))"
    unfolding Settle
    by (auto simp: run_component_def Let_def split: option.splits)
  from deliver_LoadUserInfo [OF d] g i Settle show ?thesis
    by auto
qed (insert assms, auto simp: run_component_def mounted_def login_def logout_def)

text \<open>
  C5. The callback of \<open>init\<close> calls \<open>keycloak.loadUserInfo()\<close> exactly when \<open>init\<close>
  resolved with true, and the claims that call resolves with, whatever the userinfo
  endpoint answered, are stored in \<open>userInfo\<close>. When \<open>init\<close> resolves with false
  nothing is called and \<open>userInfo\<close> stays the empty mapping. In every state the
  application reaches from its start, a \<open>loadUserInfo\<close> call appears only in the step
  in which the promise of \<open>init({ onLoad: 'login-required' })\<close> resolves with true.
\<close>

theorem userinfo_loaded_only_after_authenticated_init:
  "snd (init_then this True) = [(LoadUserInfo, Some LoadUserInfoThen)]
   \<and> snd (init_then this False) = []
   \<and> userInfo (fst (init_then this b)) = userInfo this
   \<and> userInfo (fst (loadUserInfo_then this u)) = u
   \<and> userInfo (comp (run (start k) [Mount, Settle 0 (Resolved_bool False)])) = Map.empty
   \<and> pending (run (start k) [Mount, Settle 0 (Resolved_bool False)]) = []
   \<and> userInfo (comp (run (start k)
        [Mount, Settle 0 (Resolved_bool True), Settle 0 (Resolved_claims u)])) = u
   \<and> ((LoadUserInfo, h) \<in> set (pending (step (run (start k) es) e))
        \<and> (LoadUserInfo, h) \<notin> set (pending (run (start k) es)) \<longrightarrow>
        (\<exists>i. e = Settle i (Resolved_bool True) \<and> i < length (pending (run (start k) es))
            \<and> pending (run (start k) es) ! i
                = (Init \<lparr>onLoad = LoginRequired\<rparr>, Some InitThen)))"
proof -
  have 1: "snd (init_then this True) = [(LoadUserInfo, Some LoadUserInfoThen)]
      \<and> snd (init_then this False) = []
      \<and> userInfo (fst (init_then this b)) = userInfo this
      \<and> userInfo (fst (loadUserInfo_then this u)) = u"
    by (simp add: init_then_def loadUserInfo_then_def Let_def)
  have 2: "userInfo (comp (run (start k) [Mount, Settle 0 (Resolved_bool False)])) = Map.empty
      \<and> pending (run (start k) [Mount, Settle 0 (Resolved_bool False)]) = []"
    by (simp add: run_def start_def run_component_def mounted_def init_then_def
        new_component_def)
  have 3: "userInfo (comp (run (start k)
        [Mount, Settle 0 (Resolved_bool True), Settle 0 (Resolved_claims u)])) = u"
    by (simp add: run_def start_def run_component_def mounted_def init_then_def
        loadUserInfo_then_def new_component_def)
  let ?a = "run (start k) es"
  have src: "set (pending ?a) \<subseteq> set source_calls"
    by (rule run_source_calls) (simp add: start_def)
  have 4: "\<exists>i. e = Settle i (Resolved_bool True) \<and> i < length (pending ?a)
            \<and> pending ?a ! i = (Init \<lparr>onLoad = LoginRequired\<rparr>, Some InitThen)"
    if "(LoadUserInfo, h) \<in> set (pending (step ?a e))"
      and "(LoadUserInfo, h) \<notin> set (pending ?a)"
  proof -
    from new_LoadUserInfo [OF that] obtain i where e: "e = Settle i (Resolved_bool True)"
      and i: "i < length (pending ?a)" and g: "snd (pending ?a ! i) = Some InitThen"
      by blast
    from i src have "pending ?a ! i \<in> set source_calls"
      using nth_mem by blast
    with g have "pending ?a ! i = (Init \<lparr>onLoad = LoginRequired\<rparr>, Some InitThen)"
      by (auto simp: source_calls_def)
    with e i show ?thesis by blast
  qed
  from 1 2 3 4 show ?thesis by blast
qed

theorem userinfo_loaded_only_after_authenticated_init_witness:
  "(LoadUserInfo, Some LoadUserInfoThen)
      \<in> set (pending (step (run (start \<lparr>kc_authenticated = Some True\<rparr>) [Mount])
                (Settle 0 (Resolved_bool True))))
   \<and> (LoadUserInfo, Some LoadUserInfoThen)
      \<notin> set (pending (run (start \<lparr>kc_authenticated = Some True\<rparr>) [Mount]))
   \<and> (\<exists>i. Settle 0 (Resolved_bool True) = Settle i (Resolved_bool True)
         \<and> i < length (pending (run (start \<lparr>kc_authenticated = Some True\<rparr>) [Mount]))
         \<and> pending (run (start \<lparr>kc_authenticated = Some True\<rparr>) [Mount]) ! i
             = (Init \<lparr>onLoad = LoginRequired\<rparr>, Some InitThen))
   \<and> userInfo (comp (run (start \<lparr>kc_authenticated = Some True\<rparr>)
        [Mount, Settle 0 (Resolved_bool True),
         Settle 0 (Resolved_claims [''username'' \<mapsto> ''okaiyong''])])) ''username''
       = Some ''okaiyong''
   \<and> userInfo (comp (run (start \<lparr>kc_authenticated = Some True\<rparr>)
        [Mount, Settle 0 (Resolved_bool False)])) = Map.empty"
proof -
  let ?a = "run (start \<lparr>kc_authenticated = Some True\<rparr>) [Mount]"
  have i: "(LoadUserInfo, Some LoadUserInfoThen)
      \<in> set (pending (step ?a (Settle 0 (Resolved_bool True))))"
    by (simp add: run_def start_def run_component_def mounted_def init_then_def)
  have o: "(LoadUserInfo, Some LoadUserInfoThen) \<notin> set (pending ?a)"
    by (simp add: run_def start_def run_component_def mounted_def)
  note t = userinfo_loaded_only_after_authenticated_init
    [of new_component True "[''username'' \<mapsto> ''okaiyong'']" "\<lparr>kc_authenticated = Some True\<rparr>"
        "Some LoadUserInfoThen" "[Mount]" "Settle 0 (Resolved_bool True)"]
  from t i o have e: "\<exists>i. Settle 0 (Resolved_bool True) = Settle i (Resolved_bool True)
         \<and> i < length (pending ?a)
         \<and> pending ?a ! i = (Init \<lparr>onLoad = LoginRequired\<rparr>, Some InitThen)"
    by blast
  from t have u: "userInfo (comp (run (start \<lparr>kc_authenticated = Some True\<rparr>)
        [Mount, Settle 0 (Resolved_bool True),
         Settle 0 (Resolved_claims [''username'' \<mapsto> ''okaiyong''])]))
       = [''username'' \<mapsto> ''okaiyong'']"
    by blast
  from t have f: "userInfo (comp (run (start \<lparr>kc_authenticated = Some True\<rparr>)
        [Mount, Settle 0 (Resolved_bool False)])) = Map.empty"
    by blast
  from i o e u f show ?thesis by simp
qed

section \<open>The headers of the requests to the backend\<close>

text \<open>
  C6, as stated, at the token \<open>T1\<close>: the first script's request to the backend has no
  \<open>Accept\<close> header, so not every request to the backend carries both headers.
\<close>

theorem call_backend_api_without_accept:
  "call_backend_api ''T1'' \<in> set (backend_requests ''T1'')
   \<and> header ''Accept'' (call_backend_api ''T1'') = None
   \<and> \<not> list_all (carries_bearer_and_accept ''T1'') (backend_requests ''T1'')"
  by (simp add: backend_requests_def script_requests_def call_backend_api_def
      test_secured_endpoint_def generate_token_frontend_def test_keycloak_client_def
      get_token_def token_endpoint_def backend_def header_def carries_bearer_def
      carries_accept_json_def carries_bearer_and_accept_def)

text \<open>
  C6, amended. The scripts send two requests to the backend, and both carry
  \<open>Authorization: Bearer\<close> with the token. The second script's request also carries
  \<open>Accept: application/json\<close>; the first script's does not.
\<close>

theorem backend_requests_carry_bearer:
  "backend_requests tok = [call_backend_api tok, test_secured_endpoint tok]
   \<and> list_all (carries_bearer tok) (backend_requests tok)
   \<and> carries_bearer_and_accept tok (test_secured_endpoint tok)
   \<and> \<not> carries_accept_json (call_backend_api tok)"
proof -
  have 1: "backend_requests tok = [call_backend_api tok, test_secured_endpoint tok]"
    by (simp add: backend_requests_def script_requests_def call_backend_api_def
      test_secured_endpoint_def generate_token_frontend_def test_keycloak_client_def
      get_token_def token_endpoint_def backend_def)
  have 2: "carries_bearer tok (call_backend_api tok)"
    by (simp add: carries_bearer_def header_def call_backend_api_def)
  have 3: "carries_bearer tok (test_secured_endpoint tok)"
    by (simp add: carries_bearer_def header_def test_secured_endpoint_def)
  have 4: "carries_accept_json (test_secured_endpoint tok)"
    by (simp add: carries_accept_json_def header_def test_secured_endpoint_def)
  have 5: "\<not> carries_accept_json (call_backend_api tok)"
    by (simp add: carries_accept_json_def header_def call_backend_api_def)
  from 1 2 3 4 5 show ?thesis by (simp add: carries_bearer_and_accept_def)
qed

section \<open>Logout and concurrent logins, against the session manager of the specification\<close>

text \<open>
  C3. The component's \<open>logout()\<close> makes one call, \<open>keycloak.logout()\<close>, and drops its
  promise, so that however the promise settles no code of the application runs and
  the application is as it was. With the session manager's \<open>logout\<close> as the
  specification describes it, the call completes normally and leaves the session
  \<open>Unauthenticated\<close> with its tokens cleared, from every session and whether or not the
  network is reachable.
\<close>

theorem logout_always_unauthenticated:
  "logout this = (this, [(Logout, None)])
   \<and> fst (sm_logout net s) = Inr ()
   \<and> state (snd (sm_logout net s)) = Unauthenticated
   \<and> accessToken (snd (sm_logout net s)) = None
   \<and> refreshToken (snd (sm_logout net s)) = None
   \<and> state (sm_calls net (snd (logout this)) s) = Unauthenticated
   \<and> step (step a ClickLogout) (Settle (length (pending a)) r) = a"
proof -
  have 1: "logout this = (this, [(Logout, None)])"
    by (simp add: logout_def)
  have 2: "fst (sm_logout net s) = Inr () \<and> state (snd (sm_logout net s)) = Unauthenticated
      \<and> accessToken (snd (sm_logout net s)) = None
      \<and> refreshToken (snd (sm_logout net s)) = None"
    by (simp add: sm_logout_def)
  have 3: "state (sm_calls net (snd (logout this)) s) = Unauthenticated"
    by (simp add: 1 2)
  have 4: "step (step a ClickLogout) (Settle (length (pending a)) r) = a"
    by (simp add: run_component_def logout_def)
  from 1 2 3 4 show ?thesis by simp
qed

theorem logout_always_unauthenticated_witness:
  "state scenario_session = Authenticated
   \<and> state (sm_calls Unreachable (snd (logout new_component)) scenario_session)
       = Unauthenticated
   \<and> step (step (start \<lparr>kc_authenticated = Some True\<rparr>) ClickLogout) (Settle 0 Rejected)
       = start \<lparr>kc_authenticated = Some True\<rparr>"
proof -
  have l: "length (pending (start \<lparr>kc_authenticated = Some True\<rparr>)) = 0"
    by (simp add: start_def)
  note t = logout_always_unauthenticated [of new_component Unreachable scenario_session
      "start \<lparr>kc_authenticated = Some True\<rparr>" Rejected]
  have 0: "state scenario_session = Authenticated"
    by (simp add: scenario_session_def)
  from t have 1: "state (sm_calls Unreachable (snd (logout new_component)) scenario_session)
      = Unauthenticated"
    by blast
  from t have 2: "step (step (start \<lparr>kc_authenticated = Some True\<rparr>) ClickLogout)
      (Settle (length (pending (start \<lparr>kc_authenticated = Some True\<rparr>))) Rejected)
     = start \<lparr>kc_authenticated = Some True\<rparr>"
    by blast
  from 0 1 2 show ?thesis unfolding l by blast
qed

text \<open>
  C8. A navigation to a protected route while unauthenticated and a click on the
  component's login button each make one call of \<open>keycloak.login()\<close>. With the session
  manager's \<open>login\<close> as the specification describes it, and no operation in flight
  before the first call, the second call returns the operation the first one started
  and exactly one network exchange has been started after both. In general a call
  made while an operation is in flight returns that operation and changes nothing.
\<close>

theorem second_login_attaches:
  assumes "inFlight s = None"
    and "some_requiresAuth to" and "\<not> truthy (kc_authenticated keycloak)"
  shows "beforeEach keycloak to from = [Keycloak (Login, None)]
       \<and> snd (login this) = [(Login, None)]
       \<and> fst (sm_login (snd (sm_login s))) = fst (sm_login s)
       \<and> inFlight (sm_calls net ((Login, None) # snd (login this)) s) = Some (fst (sm_login s))
       \<and> exchanges (sm_calls net ((Login, None) # snd (login this)) s) = Suc (exchanges s)
       \<and> (inFlight s' = Some p \<longrightarrow> sm_login s' = (p, s'))"
proof -
  have 1: "beforeEach keycloak to from = [Keycloak (Login, None)]"
    using assms(2,3) by (rule beforeEach_gate)
  have 2: "snd (login this) = [(Login, None)]"
    by (simp add: login_def)
  have 3: "sm_login s = (exchanges s, s\<lparr>state := Authenticating,
      inFlight := Some (exchanges s), exchanges := Suc (exchanges s)\<rparr>)"
    using assms(1) by (simp add: sm_login_def)
  have 4: "sm_login s' = (p, s')" if "inFlight s' = Some p" for s' p
    using that by (simp add: sm_login_def)
  have 5: "sm_login (snd (sm_login s)) = (exchanges s, snd (sm_login s))"
    by (rule 4) (simp add: 3)
  from 1 2 3 4 5 show ?thesis by simp
qed

theorem second_login_attaches_witness:
  "inFlight new_session = None
   \<and> some_requiresAuth home_route
   \<and> \<not> truthy (kc_authenticated \<lparr>kc_authenticated = None\<rparr>)
   \<and> sm_calls Reachable ((Login, None) # snd (login new_component)) new_session
       = new_session\<lparr>state := Authenticating, inFlight := Some 0, exchanges := 1\<rparr>"
proof -
  have h1: "inFlight new_session = None"
    by (simp add: new_session_def)
  have h3: "\<not> truthy (kc_authenticated \<lparr>kc_authenticated = None\<rparr>)"
    by simp
  show ?thesis
    using second_login_attaches [OF h1 home_requiresAuth h3,
        of home_route new_component Reachable]
      home_requiresAuth
    by (simp add: login_def sm_login_def new_session_def)
qed

end
